theory Spec2Isabelle
  imports Main "HOL-Library.Char_ord"
begin

section \<open>Time\<close>

text \<open>
  A Go \<^verbatim>\<open>time.Time\<close> is modelled as the number of nanoseconds since the zero time
  (January 1, year 1, 00:00:00 UTC), so that \<^verbatim>\<open>IsZero\<close> is equality with 0,
  \<^verbatim>\<open>After\<close> is \<open>>\<close>, \<^verbatim>\<open>Equal\<close> is \<open>=\<close> and \<^verbatim>\<open>Add\<close> is addition of a
  \<^verbatim>\<open>time.Duration\<close> (nanoseconds). The instants the program handles come from
  RFC 3339 strings and from the wall clock, far from the range where Go's
  representation saturates, so the integers are unbounded.
\<close>

type_synonym time = int
type_synonym duration = int

definition Second :: duration where
  "Second = 1000000000"

definition Minute :: duration where
  "Minute = 60 * Second"

definition Add :: "time \<Rightarrow> duration \<Rightarrow> time" where
  "Add t d = t + d"

definition After :: "time \<Rightarrow> time \<Rightarrow> bool" where
  "After t u = (t > u)"

definition Equal :: "time \<Rightarrow> time \<Rightarrow> bool" where
  "Equal t u = (t = u)"

definition IsZero :: "time \<Rightarrow> bool" where
  "IsZero t = (t = 0)"

section \<open>The rate limiter (pkg/ratelimiter)\<close>

text \<open>
  \<^verbatim>\<open>RateLimiter\<close> holds the limit and a map from customer id to the slice of stored
  request times. The mutex has no sequential content: every method runs under it from
  beginning to end, so a method is one atomic step on the record.
\<close>

record RateLimiter =
  requestsPerMinute :: int
  requests :: "string \<rightharpoonup> time list"

definition NewRateLimiter :: "int \<Rightarrow> RateLimiter" where
  "NewRateLimiter n = \<lparr>requestsPerMinute = n, requests = Map.empty\<rparr>"

text \<open>The test both loops of the source apply to a stored time.\<close>

definition inWindow :: "time \<Rightarrow> time \<Rightarrow> bool" where
  "inWindow windowStart t = (After t windowStart \<or> Equal t windowStart)"

text \<open>
  \<^verbatim>\<open>IsAllowed\<close>: an unseen customer is initialised with the one request and allowed
  at once; otherwise the stored slice is replaced by the requests of the window that
  ends at \<^verbatim>\<open>createdAt\<close>, and the request is appended when their number is under the
  limit. The result is the updated limiter and the returned boolean.
\<close>

definition IsAllowed :: "RateLimiter \<Rightarrow> string \<Rightarrow> time \<Rightarrow> RateLimiter \<times> bool" where
  "IsAllowed r customerID createdAt =
     (case requests r customerID of
        None \<Rightarrow> (r\<lparr>requests := (requests r)(customerID \<mapsto> [createdAt])\<rparr>, True)
      | Some stored \<Rightarrow>
          (let windowStart = Add createdAt (- 1 * Minute);
               validRequests = filter (inWindow windowStart) stored
           in if int (length validRequests) < requestsPerMinute r
              then (r\<lparr>requests := (requests r)(customerID \<mapsto> validRequests @ [createdAt])\<rparr>, True)
              else (r\<lparr>requests := (requests r)(customerID \<mapsto> validRequests)\<rparr>, False)))"

text \<open>
  \<^verbatim>\<open>GetRemainingRequests\<close> reads the wall clock; the reading is the argument
  \<open>now\<close>. Like every method of the limiter it is a step on the record, and it
  returns the record it leaves behind together with its result.
\<close>

fun countValid :: "time \<Rightarrow> time list \<Rightarrow> int" where
  "countValid windowStart [] = 0"
| "countValid windowStart (t # ts) =
     (if inWindow windowStart t then 1 else 0) + countValid windowStart ts"

definition GetRemainingRequests :: "RateLimiter \<Rightarrow> string \<Rightarrow> time \<Rightarrow> RateLimiter \<times> int" where
  "GetRemainingRequests r customerID now =
     (let windowStart = Add now (- 1 * Minute);
          validCount = (case requests r customerID of
                          None \<Rightarrow> 0
                        | Some stored \<Rightarrow> countValid windowStart stored)
      in (r, requestsPerMinute r - validCount))"

text \<open>A sequence of \<^verbatim>\<open>IsAllowed\<close> calls, with the booleans they return in order.\<close>

fun admitAll :: "RateLimiter \<Rightarrow> (string \<times> time) list \<Rightarrow> RateLimiter \<times> bool list" where
  "admitAll r [] = (r, [])"
| "admitAll r ((k, at) # cs) =
     (let (r1, b) = IsAllowed r k at;
          (r2, bs) = admitAll r1 cs
      in (r2, b # bs))"

text \<open>
  Notions used to state the properties of the limiter: the stored slice of a customer
  (empty when the customer is unseen), and the projections of a sequence of calls and of
  their results to one customer.
\<close>

definition history :: "RateLimiter \<Rightarrow> string \<Rightarrow> time list" where
  "history r k = (case requests r k of None \<Rightarrow> [] | Some stored \<Rightarrow> stored)"

definition timesFor :: "string \<Rightarrow> (string \<times> time) list \<Rightarrow> time list" where
  "timesFor k cs = map snd (filter (\<lambda>c. fst c = k) cs)"

definition resultsFor :: "string \<Rightarrow> (string \<times> time) list \<Rightarrow> bool list \<Rightarrow> bool list" where
  "resultsFor k cs bs = map snd (filter (\<lambda>cb. fst (fst cb) = k) (zip cs bs))"

section \<open>Regular expressions (the part of regexp the validator uses)\<close>

text \<open>
  The validator compiles one pattern,
  \<^verbatim>\<open>^[a-z0-9._%+\-]+@[a-z0-9.\-]+\.[a-z]{2,4}$\<close>, and asks whether a string matches.
  The pattern is kept as a syntax tree with the operators of Go's \<^verbatim>\<open>regexp/syntax\<close>:
  a character class is a list of inclusive ranges, \<^verbatim>\<open>+\<close> and \<^verbatim>\<open>{m,n}\<close> are
  abbreviations. A Go string is a sequence of bytes and so is a \<^typ>\<open>string\<close>; the
  classes of the pattern hold ASCII characters only, so a byte of a multi-byte rune is
  in none of them.
\<close>

datatype regexp =
    NoMatch
  | EmptyMatch
  | CharClass "(char \<times> char) list"
  | Concat regexp regexp
  | Alternate regexp regexp
  | Star regexp

fun inClass :: "(char \<times> char) list \<Rightarrow> char \<Rightarrow> bool" where
  "inClass [] c = False"
| "inClass ((lo, hi) # rs) c = ((lo \<le> c \<and> c \<le> hi) \<or> inClass rs c)"

definition Literal :: "char \<Rightarrow> regexp" where
  "Literal c = CharClass [(c, c)]"

definition Plus1 :: "regexp \<Rightarrow> regexp" where
  "Plus1 r = Concat r (Star r)"

fun upTo :: "regexp \<Rightarrow> nat \<Rightarrow> regexp" where
  "upTo r 0 = EmptyMatch"
| "upTo r (Suc n) = Alternate EmptyMatch (Concat r (upTo r n))"

fun Repeat :: "regexp \<Rightarrow> nat \<Rightarrow> nat \<Rightarrow> regexp" where
  "Repeat r 0 n = upTo r n"
| "Repeat r (Suc m) n = Concat r (Repeat r m (n - 1))"

text \<open>
  Matching by derivatives: \<open>deriv c r\<close> matches what \<open>r\<close> matches after a leading
  \<open>c\<close>. The pattern is anchored at both ends (\<^verbatim>\<open>^\<close> and \<^verbatim>\<open>$\<close>, which without the
  multi-line flag is the end of the text), so \<^verbatim>\<open>MatchString\<close> holds exactly when the
  whole string matches the tree between the anchors.
\<close>

fun nullable :: "regexp \<Rightarrow> bool" where
  "nullable NoMatch = False"
| "nullable EmptyMatch = True"
| "nullable (CharClass rs) = False"
| "nullable (Concat r s) = (nullable r \<and> nullable s)"
| "nullable (Alternate r s) = (nullable r \<or> nullable s)"
| "nullable (Star r) = True"

fun deriv :: "char \<Rightarrow> regexp \<Rightarrow> regexp" where
  "deriv c NoMatch = NoMatch"
| "deriv c EmptyMatch = NoMatch"
| "deriv c (CharClass rs) = (if inClass rs c then EmptyMatch else NoMatch)"
| "deriv c (Concat r s) =
     (if nullable r then Alternate (Concat (deriv c r) s) (deriv c s)
      else Concat (deriv c r) s)"
| "deriv c (Alternate r s) = Alternate (deriv c r) (deriv c s)"
| "deriv c (Star r) = Concat (deriv c r) (Star r)"

fun MatchString :: "regexp \<Rightarrow> string \<Rightarrow> bool" where
  "MatchString r [] = nullable r"
| "MatchString r (c # cs) = MatchString (deriv c r) cs"

text \<open>The strings a tree denotes, as the reference for the matcher.\<close>

inductive_set star :: "string set \<Rightarrow> string set" for A :: "string set" where
  star_empty: "[] \<in> star A"
| star_more: "u \<in> A \<Longrightarrow> v \<in> star A \<Longrightarrow> u @ v \<in> star A"

fun lang :: "regexp \<Rightarrow> string set" where
  "lang NoMatch = {}"
| "lang EmptyMatch = {[]}"
| "lang (CharClass rs) = {[c] | c. inClass rs c}"
| "lang (Concat r s) = {u @ v | u v. u \<in> lang r \<and> v \<in> lang s}"
| "lang (Alternate r s) = lang r \<union> lang s"
| "lang (Star r) = star (lang r)"

section \<open>The validator (pkg/validator, pkg/types)\<close>

record Sample =
  CustomerID :: string
  Email :: string
  Name :: string
  CreatedAt :: time
  UpdatedAt :: time

text \<open>
  One block of \<^verbatim>\<open>error.log\<close>: the status is always \<^verbatim>\<open>"error"\<close>; the other three
  values are the ones \<^verbatim>\<open>writeErrorLog\<close> formats into the block.
\<close>

record ErrorEntry =
  logCustomerId :: string
  logReason :: string
  logCreatedAt :: time

text \<open>
  The validator's counter, together with the content of \<^verbatim>\<open>error.log\<close>, which only the
  validator writes. (The \<^verbatim>\<open>db\<close> field of the struct is never read.)
\<close>

record Validator =
  errorCount :: int
  errorLog :: "ErrorEntry list"

text \<open>
  \<^verbatim>\<open>NewValidator\<close> starts the counter at 0; its argument here is the content of
  \<^verbatim>\<open>error.log\<close> at that moment (\<^verbatim>\<open>main\<close> and the tests remove the file first).
\<close>

definition NewValidator :: "ErrorEntry list \<Rightarrow> Validator" where
  "NewValidator logFile = \<lparr>errorCount = 0, errorLog = logFile\<rparr>"

text \<open>
  What the outside world answers while one record is processed: the two readings of the
  clock (in \<^verbatim>\<open>ValidateSample\<close> and in \<^verbatim>\<open>writeErrorLog\<close>), whether the log file can
  be opened and written, and whether the database accepts the insert (\<open>None\<close>) or
  fails with a message.
\<close>

datatype logOutcome = LogWritten | OpenFailed string | WriteFailed string

record Ext =
  clockValidate :: time
  clockLog :: time
  logResult :: logOutcome
  insertResult :: "string option"

definition emailRegex :: regexp where
  "emailRegex =
     Concat (Plus1 (CharClass [(CHR ''a'', CHR ''z''), (CHR ''0'', CHR ''9''), (CHR ''.'', CHR ''.''),
                               (CHR ''_'', CHR ''_''), (CHR ''%'', CHR ''%''), (CHR ''+'', CHR ''+''),
                               (CHR ''-'', CHR ''-'')]))
    (Concat (Literal CHR ''@'')
    (Concat (Plus1 (CharClass [(CHR ''a'', CHR ''z''), (CHR ''0'', CHR ''9''), (CHR ''.'', CHR ''.''),
                               (CHR ''-'', CHR ''-'')]))
    (Concat (Literal CHR ''.'')
            (Repeat (CharClass [(CHR ''a'', CHR ''z'')]) 2 4))))"

definition isValidEmail :: "string \<Rightarrow> bool" where
  "isValidEmail email = MatchString emailRegex email"

text \<open>
  \<^verbatim>\<open>writeErrorLog\<close>: when the file cannot be opened or written the error is returned
  and the counter stays; otherwise the block is appended and the counter incremented.
\<close>

definition writeErrorLog :: "Validator \<Rightarrow> Ext \<Rightarrow> string \<Rightarrow> string \<Rightarrow> Validator \<times> string option" where
  "writeErrorLog v x customerID reason =
     (case logResult x of
        OpenFailed e \<Rightarrow> (v, Some (''failed to open error log: '' @ e))
      | WriteFailed e \<Rightarrow> (v, Some (''failed to write to error log: '' @ e))
      | LogWritten \<Rightarrow>
          (v\<lparr>errorLog := errorLog v @
                 [\<lparr>logCustomerId = customerID, logReason = reason, logCreatedAt = clockLog x\<rparr>],
              errorCount := errorCount v + 1\<rparr>, None))"

definition WriteErrorLog :: "Validator \<Rightarrow> Ext \<Rightarrow> string \<Rightarrow> string \<Rightarrow> Validator \<times> string option" where
  "WriteErrorLog v x customerID reason = writeErrorLog v x customerID reason"

definition GetErrorCount :: "Validator \<Rightarrow> int" where
  "GetErrorCount v = errorCount v"

text \<open>
  The body of \<^verbatim>\<open>ValidateSample\<close>, run on its parameter \<^verbatim>\<open>sample\<close>. The result of
  \<^verbatim>\<open>writeErrorLog\<close> is dropped by the source. The second component is the value of
  the parameter when the body returns.
\<close>

definition ValidateSampleBody :: "Validator \<Rightarrow> Ext \<Rightarrow> Sample \<Rightarrow> Validator \<times> Sample \<times> string option" where
  "ValidateSampleBody v x sample =
     (if CustomerID sample = ''''
      then (fst (writeErrorLog v x (CustomerID sample) ''customer_id is required''), sample,
            Some ''customer_id is required'')
      else if \<not> isValidEmail (Email sample)
      then (fst (writeErrorLog v x (CustomerID sample) ''invalid email format''), sample,
            Some ''invalid email format'')
      else if Name sample = ''''
      then (fst (writeErrorLog v x (CustomerID sample) ''name is required''), sample,
            Some ''name is required'')
      else if IsZero (CreatedAt sample)
      then (fst (writeErrorLog v x (CustomerID sample) ''created_at is required''), sample,
            Some ''created_at is required'')
      else if IsZero (UpdatedAt sample)
      then (v, sample\<lparr>UpdatedAt := clockValidate x\<rparr>, None)
      else (v, sample, None))"

text \<open>
  \<^verbatim>\<open>ValidateSample(sample types.Sample)\<close> receives the struct by value: the body works
  on a copy, and the caller gets the validator's new state and the error only.
\<close>

definition ValidateSample :: "Validator \<Rightarrow> Ext \<Rightarrow> Sample \<Rightarrow> Validator \<times> string option" where
  "ValidateSample v x sample =
     (case ValidateSampleBody v x sample of (v', copy, err) \<Rightarrow> (v', err))"

section \<open>The service (pkg/service)\<close>

record CustomSample =
  csCustomerID :: string
  csEmail :: string
  csName :: string
  csCreatedAt :: string

record ProcessResult =
  SuccessCount :: int
  ErrorCount :: int

text \<open>
  The service holds its validator and rate limiter; of the database it holds what the
  interface lets it do, which is to hand samples to \<^verbatim>\<open>InsertSample\<close>: \<open>db\<close> is the
  list of the samples handed over in calls that succeeded.
\<close>

record SampleService =
  validator :: Validator
  rateLimiter :: RateLimiter
  db :: "Sample list"

definition NewSampleService :: "Validator \<Rightarrow> RateLimiter \<Rightarrow> Sample list \<Rightarrow> SampleService" where
  "NewSampleService v r d = \<lparr>validator = v, rateLimiter = r, db = d\<rparr>"

datatype sampleError =
    ParseError string
  | ValidationError string
  | RateLimitExceeded
  | InsertError string

text \<open>
  \<^verbatim>\<open>ProcessSample\<close>. \<^verbatim>\<open>time.Parse(time.RFC3339, _)\<close> is the parameter \<open>parse\<close>
  (\<open>None\<close> when it returns an error). The sample is built with \<^verbatim>\<open>UpdatedAt\<close>
  unset, which is the zero time.
\<close>

definition ProcessSample :: "(string \<Rightarrow> time option) \<Rightarrow> SampleService \<Rightarrow> Ext \<Rightarrow> CustomSample
    \<Rightarrow> SampleService \<times> sampleError option" where
  "ProcessSample parse s x cs =
     (case parse (csCreatedAt cs) of
        None \<Rightarrow>
          (s\<lparr>validator := fst (WriteErrorLog (validator s) x (csCustomerID cs)
                                 (''invalid date format: '' @ csCreatedAt cs))\<rparr>,
           Some (ParseError (csCreatedAt cs)))
      | Some createdAt \<Rightarrow>
          (let sample = \<lparr>CustomerID = csCustomerID cs, Email = csEmail cs, Name = csName cs,
                          CreatedAt = createdAt, UpdatedAt = 0\<rparr>
           in case ValidateSample (validator s) x sample of
                (v1, Some err) \<Rightarrow> (s\<lparr>validator := v1\<rparr>, Some (ValidationError err))
              | (v1, None) \<Rightarrow>
                  (case IsAllowed (rateLimiter s) (CustomerID sample) (CreatedAt sample) of
                     (r1, False) \<Rightarrow>
                       (s\<lparr>validator := fst (WriteErrorLog v1 x (CustomerID sample) ''rate limit exceeded''),
                          rateLimiter := r1\<rparr>,
                        Some RateLimitExceeded)
                   | (r1, True) \<Rightarrow>
                       (case insertResult x of
                          Some e \<Rightarrow>
                            (s\<lparr>validator := fst (WriteErrorLog v1 x (CustomerID sample)
                                                   (''failed to insert: '' @ e)),
                               rateLimiter := r1\<rparr>,
                             Some (InsertError e))
                        | None \<Rightarrow>
                            (s\<lparr>validator := v1, rateLimiter := r1, db := db s @ [sample]\<rparr>, None)))))"

text \<open>The loop of \<^verbatim>\<open>ProcessSamples\<close>, with the local \<^verbatim>\<open>successCount\<close>.\<close>

fun processLoop :: "(string \<Rightarrow> time option) \<Rightarrow> SampleService \<Rightarrow> int \<Rightarrow> (CustomSample \<times> Ext) list
    \<Rightarrow> SampleService \<times> int" where
  "processLoop parse s successCount [] = (s, successCount)"
| "processLoop parse s successCount ((cs, x) # rest) =
     (case ProcessSample parse s x cs of
        (s1, None) \<Rightarrow> processLoop parse s1 (successCount + 1) rest
      | (s1, Some err) \<Rightarrow> processLoop parse s1 successCount rest)"

section \<open>The JSON decoder (the part of encoding/json the service uses)\<close>



text \<open>
  The errors of \<^verbatim>\<open>Decode\<close>: no value could be read, or a value is not appropriate for
  its target (\<^verbatim>\<open>UnmarshalTypeError\<close>, with the kind of the JSON value and the Go type).
\<close>

datatype decodeError = SyntaxError string | UnmarshalTypeError string string


text \<open>
  An object key is matched to a struct field by its tag, exactly or else without regard
  to case. The fields here differ in more than case, so a key belongs to a field when the
  two are equal after folding. Go folds by Unicode simple folding: an ASCII letter to its
  capital, and of the other runes only the long s (U+017F, bytes C5 BF) and the Kelvin
  sign (U+212A, bytes E2 84 AA) to an ASCII letter.
\<close>

definition foldChar :: "char \<Rightarrow> char" where
  "foldChar c =
     (case map_of (zip ''abcdefghijklmnopqrstuvwxyz'' ''ABCDEFGHIJKLMNOPQRSTUVWXYZ'') c of
        Some u \<Rightarrow> u
      | None \<Rightarrow> c)"

fun foldName :: "string \<Rightarrow> string" where
  "foldName (c1 # c2 # c3 # cs) =
     (if c1 = CHR 0xE2 \<and> c2 = CHR 0x84 \<and> c3 = CHR 0xAA then CHR ''K'' # foldName cs
      else if c1 = CHR 0xC5 \<and> c2 = CHR 0xBF then CHR ''S'' # foldName (c3 # cs)
      else foldChar c1 # foldName (c2 # c3 # cs))"
| "foldName [c1, c2] =
     (if c1 = CHR 0xC5 \<and> c2 = CHR 0xBF then [CHR ''S''] else [foldChar c1, foldChar c2])"
| "foldName [c] = [foldChar c]"
| "foldName [] = []"

definition EqualFold :: "string \<Rightarrow> string \<Rightarrow> bool" where
  "EqualFold key name = (foldName key = foldName name)"











section \<open>The service, continued\<close>

datatype fatalError = OpenError string | DecodeError decodeError

text \<open>
  \<^verbatim>\<open>ProcessSamples\<close> returns a result and an error that is always \<^verbatim>\<open>nil\<close>: the
  right injection. Each sample comes with the answers of the outside world during its
  processing.
\<close>

definition ProcessSamples :: "(string \<Rightarrow> time option) \<Rightarrow> SampleService \<Rightarrow> (CustomSample \<times> Ext) list
    \<Rightarrow> SampleService \<times> (fatalError + ProcessResult)" where
  "ProcessSamples parse s samples =
     (case processLoop parse s 0 samples of
        (s1, successCount) \<Rightarrow>
          (s1, Inr \<lparr>SuccessCount = successCount, ErrorCount = GetErrorCount (validator s1)\<rparr>))"


section \<open>The email grammar as the specification words it\<close>

definition lowercase :: "char \<Rightarrow> bool" where
  "lowercase c = (CHR ''a'' \<le> c \<and> c \<le> CHR ''z'')"

definition uppercase :: "char \<Rightarrow> bool" where
  "uppercase c = (CHR ''A'' \<le> c \<and> c \<le> CHR ''Z'')"

definition digit :: "char \<Rightarrow> bool" where
  "digit c = (CHR ''0'' \<le> c \<and> c \<le> CHR ''9'')"

definition localChar :: "char \<Rightarrow> bool" where
  "localChar c = (lowercase c \<or> digit c \<or> c \<in> set ''._%+-'')"

definition domainChar :: "char \<Rightarrow> bool" where
  "domainChar c = (lowercase c \<or> digit c \<or> c = CHR ''.'' \<or> c = CHR ''-'')"

definition emailGrammar :: "string \<Rightarrow> bool" where
  "emailGrammar s =
     (\<exists>l d t. s = l @ ''@'' @ d @ ''.'' @ t
        \<and> l \<noteq> [] \<and> list_all localChar l
        \<and> d \<noteq> [] \<and> list_all domainChar d
        \<and> 2 \<le> length t \<and> length t \<le> 4 \<and> list_all lowercase t)"

section \<open>The batch file and the records, as the properties word them\<close>











section \<open>Invariants used in the proofs\<close>

text \<open>Every customer's stored slice is within the limit.\<close>

definition bounded :: "RateLimiter \<Rightarrow> bool" where
  "bounded r = (\<forall>k. int (length (history r k)) \<le> requestsPerMinute r)"

text \<open>
  What one sample does to the service: either it is rejected (one more counted error, one
  more block in the log, nothing inserted) or it is persisted (one more sample inserted,
  counter and log as before).
\<close>

definition rejected :: "SampleService \<Rightarrow> SampleService \<Rightarrow> bool" where
  "rejected s s' = (errorCount (validator s') = errorCount (validator s) + 1
       \<and> length (errorLog (validator s')) = length (errorLog (validator s)) + 1
       \<and> db s' = db s)"

definition persisted :: "SampleService \<Rightarrow> SampleService \<Rightarrow> bool" where
  "persisted s s' = (errorCount (validator s') = errorCount (validator s)
       \<and> errorLog (validator s') = errorLog (validator s)
       \<and> length (db s') = length (db s) + 1)"

section \<open>Concrete inputs for the examples\<close>

text \<open>
  A stand-in for \<^verbatim>\<open>time.Parse\<close> that knows the one timestamp the examples use
  (the number of seconds from the zero time to noon of 26 March 2024, UTC), a world in
  which the log can be written and the database accepts the insert, the records of the
  service's own tests, and a batch file in which one record has a number for its customer
  id.
\<close>

definition parseOne :: "string \<Rightarrow> time option" where
  "parseOne raw = (if raw = ''2024-03-26T12:00:00Z'' then Some (63847051200 * Second) else None)"

definition calm :: Ext where
  "calm = \<lparr>clockValidate = 63900000000 * Second, clockLog = 63900000001 * Second,
            logResult = LogWritten, insertResult = None\<rparr>"

definition john :: CustomSample where
  "john = \<lparr>csCustomerID = ''1'', csEmail = ''john@example.com'', csName = ''John Doe'',
            csCreatedAt = ''2024-03-26T12:00:00Z''\<rparr>"

definition noEmail :: CustomSample where
  "noEmail = \<lparr>csCustomerID = ''3'', csEmail = ''not-an-email'', csName = ''Invalid Email'',
               csCreatedAt = ''2024-03-26T12:00:00Z''\<rparr>"

definition johnSample :: Sample where
  "johnSample = \<lparr>CustomerID = ''1'', Email = ''john@example.com'', Name = ''John Doe'',
                  CreatedAt = 63847051200 * Second, UpdatedAt = 0\<rparr>"



definition freshService :: SampleService where
  "freshService = NewSampleService (NewValidator []) (NewRateLimiter 5) []"

section \<open>Properties of the rate limiter\<close>

lemma countValid_filter: "countValid w ts = int (length (filter (inWindow w) ts))"
  by (induction ts) auto

lemma inWindow_le: "inWindow w t \<longleftrightarrow> w \<le> t"
  by (auto simp: inWindow_def After_def Equal_def)

lemma inWindow_fun: "inWindow w = (\<lambda>t. w \<le> t)"
  by (rule ext) (rule inWindow_le)

lemma IsAllowed_limit [simp]: "requestsPerMinute (fst (IsAllowed r k a)) = requestsPerMinute r"
  by (simp add: IsAllowed_def Let_def split: option.splits)

lemma IsAllowed_other: "k' \<noteq> k \<Longrightarrow> requests (fst (IsAllowed r k' a)) k = requests r k"
  by (simp add: IsAllowed_def Let_def split: option.splits)

lemma history_other: "k' \<noteq> k \<Longrightarrow> history (fst (IsAllowed r k' a)) k = history r k"
  by (simp add: history_def IsAllowed_other)

text \<open>With a limit of at least 1 an unseen customer behaves like one with an empty slice.\<close>

lemma IsAllowed_history:
  assumes "1 \<le> requestsPerMinute r"
  shows "history (fst (IsAllowed r k a)) k =
           (let kept = filter (\<lambda>t. a - Minute \<le> t) (history r k)
            in if int (length kept) < requestsPerMinute r then kept @ [a] else kept)"
    and "snd (IsAllowed r k a) =
           (int (length (filter (\<lambda>t. a - Minute \<le> t) (history r k))) < requestsPerMinute r)"
  using assms
  by (auto simp: IsAllowed_def history_def Let_def inWindow_fun Add_def split: option.splits)

lemma admitAll_Cons_fst: "fst (admitAll r ((k, a) # cs)) = fst (admitAll (fst (IsAllowed r k a)) cs)"
  by (simp add: split_beta Let_def)

lemma admitAll_Cons_snd: "snd (admitAll r ((k, a) # cs)) = snd (IsAllowed r k a) # snd (admitAll (fst (IsAllowed r k a)) cs)"
  by (simp add: split_beta Let_def)

lemma admitAll_limit [simp]: "requestsPerMinute (fst (admitAll r cs)) = requestsPerMinute r"
  by (induction cs arbitrary: r) (auto simp: split_beta)

lemma length_admitAll [simp]: "length (snd (admitAll r cs)) = length cs"
  by (induction cs arbitrary: r) (auto simp: split_beta)

lemma resultsFor_Cons:
  "resultsFor k ((k', a) # cs) (b # bs) = (if k' = k then b # resultsFor k cs bs else resultsFor k cs bs)"
  by (simp add: resultsFor_def)

lemma timesFor_Cons:
  "timesFor k ((k', a) # cs) = (if k' = k then a # timesFor k cs else timesFor k cs)"
  by (simp add: timesFor_def)

lemma admitAll_same_window:
  assumes "1 \<le> requestsPerMinute r"
    and "\<forall>h\<in>set (history r k). \<forall>t\<in>set (timesFor k cs). t - Minute \<le> h"
    and "\<forall>s\<in>set (timesFor k cs). \<forall>t\<in>set (timesFor k cs). t - Minute \<le> s"
  shows "resultsFor k cs (snd (admitAll r cs)) =
           replicate (min (length (timesFor k cs)) (nat (requestsPerMinute r) - length (history r k))) True
           @ replicate (length (timesFor k cs) - (nat (requestsPerMinute r) - length (history r k))) False"
  using assms
proof (induction cs arbitrary: r)
  case Nil
  then show ?case by (simp add: resultsFor_def timesFor_def)
next
  case (Cons c cs)
  obtain k' a where c: "c = (k', a)" by (cases c)
  show ?case
  proof (cases "k' = k")
    case False
    let ?r1 = "fst (IsAllowed r k' a)"
    have lim: "1 \<le> requestsPerMinute ?r1" using Cons.prems(1) by simp
    have h: "history ?r1 k = history r k" using False by (rule history_other)
    have "resultsFor k cs (snd (admitAll ?r1 cs)) =
           replicate (min (length (timesFor k cs)) (nat (requestsPerMinute ?r1) - length (history ?r1 k))) True
           @ replicate (length (timesFor k cs) - (nat (requestsPerMinute ?r1) - length (history ?r1 k))) False"
    proof (rule Cons.IH[OF lim])
      show "\<forall>h\<in>set (history ?r1 k). \<forall>t\<in>set (timesFor k cs). t - Minute \<le> h"
        using Cons.prems(2) False by (simp add: c timesFor_Cons h)
      show "\<forall>s\<in>set (timesFor k cs). \<forall>t\<in>set (timesFor k cs). t - Minute \<le> s"
        using Cons.prems(3) False by (simp add: c timesFor_Cons)
    qed
    then show ?thesis using False
      by (simp add: c admitAll_Cons_snd resultsFor_Cons timesFor_Cons h del: admitAll.simps)
  next
    case True
    let ?r1 = "fst (IsAllowed r k a)"
    let ?hs = "history r k"
    let ?N = "requestsPerMinute r"
    have ck: "c = (k, a)" using c True by simp
    have lim: "1 \<le> requestsPerMinute ?r1" using Cons.prems(1) by simp
    have keep: "filter (\<lambda>t. a - Minute \<le> t) ?hs = ?hs"
      using Cons.prems(2) by (auto simp: ck timesFor_Cons filter_id_conv)
    have hist1: "history ?r1 k = (if int (length ?hs) < ?N then ?hs @ [a] else ?hs)"
      using IsAllowed_history(1)[OF Cons.prems(1), of k a] by (simp add: Let_def keep)
    have res1: "snd (IsAllowed r k a) = (int (length ?hs) < ?N)"
      using IsAllowed_history(2)[OF Cons.prems(1), of k a] by (simp add: keep)
    have p2: "\<forall>h\<in>set (history ?r1 k). \<forall>t\<in>set (timesFor k cs). t - Minute \<le> h"
      using Cons.prems(2,3) by (auto simp: hist1 ck timesFor_Cons)
    have p3: "\<forall>s\<in>set (timesFor k cs). \<forall>t\<in>set (timesFor k cs). t - Minute \<le> s"
      using Cons.prems(3) by (auto simp: ck timesFor_Cons)
    have IH: "resultsFor k cs (snd (admitAll ?r1 cs)) =
           replicate (min (length (timesFor k cs)) (nat (requestsPerMinute ?r1) - length (history ?r1 k))) True
           @ replicate (length (timesFor k cs) - (nat (requestsPerMinute ?r1) - length (history ?r1 k))) False"
      using lim p2 p3 by (rule Cons.IH)
    show ?thesis
    proof (cases "int (length ?hs) < ?N")
      case lt: True
      then have "nat ?N - length ?hs = Suc (nat ?N - Suc (length ?hs))"
        by linarith
      then show ?thesis using lt IH
        by (simp add: ck admitAll_Cons_snd resultsFor_Cons timesFor_Cons hist1 res1 del: admitAll.simps)
    next
      case ge: False
      then have "nat ?N - length ?hs = 0" by linarith
      then show ?thesis using ge IH
        by (simp add: ck admitAll_Cons_snd resultsFor_Cons timesFor_Cons hist1 res1 del: admitAll.simps)
    qed
  qed
qed

text \<open>
  Claim C1, amended. Let the limit be at least 1 and the customer \<open>k\<close> unseen. In any
  sequence of \<^verbatim>\<open>IsAllowed\<close> calls (calls for other customers may come in between) in
  which the times supplied for \<open>k\<close> lie within 60 seconds of one another, the first
  \<open>N\<close> calls for \<open>k\<close> are allowed and every later one is denied, the \<open>(N+1)\<close>-th
  in particular.
\<close>

theorem first_N_allowed_then_denied:
  assumes "1 \<le> requestsPerMinute r"
    and "requests r k = None"
    and "\<forall>s\<in>set (timesFor k cs). \<forall>t\<in>set (timesFor k cs). t - Minute \<le> s"
  shows "resultsFor k cs (snd (admitAll r cs)) =
           replicate (min (length (timesFor k cs)) (nat (requestsPerMinute r))) True
           @ replicate (length (timesFor k cs) - nat (requestsPerMinute r)) False"
proof -
  have "history r k = []" using assms(2) by (simp add: history_def)
  then show ?thesis using admitAll_same_window[OF assms(1) _ assms(3)] by simp
qed

text \<open>Limit 2, three calls for \<open>c1\<close> within one minute, one call for \<open>c2\<close> in between.\<close>

theorem first_N_allowed_then_denied_witness:
  "resultsFor ''c1'' [(''c1'', 0), (''c2'', 5 * Second), (''c1'', 60 * Second), (''c1'', 30 * Second)]
     (snd (admitAll (NewRateLimiter 2)
        [(''c1'', 0), (''c2'', 5 * Second), (''c1'', 60 * Second), (''c1'', 30 * Second)]))
   = [True, True, False]"
  using first_N_allowed_then_denied[of "NewRateLimiter 2" "''c1''"
      "[(''c1'', 0), (''c2'', 5 * Second), (''c1'', 60 * Second), (''c1'', 30 * Second)]"]
  by (simp add: NewRateLimiter_def timesFor_def Minute_def Second_def numeral_eq_Suc)

text \<open>
  Claim C1 as stated, for every limit, fails at limit 0: the first call for an unseen
  customer, which is the \<open>(N+1)\<close>-th, is allowed.
\<close>

theorem limit_zero_first_call_allowed:
  "snd (admitAll (NewRateLimiter 0) [(''c1'', 0)]) = [True]"
  by (simp add: NewRateLimiter_def IsAllowed_def)

lemma admitAll_spaced:
  assumes "2 \<le> requestsPerMinute r"
    and "successively (\<lambda>s t. t = s + Minute) (timesFor k cs)"
    and "\<forall>a. timesFor k cs \<noteq> [] \<and> a = hd (timesFor k cs) \<longrightarrow>
           (\<forall>h\<in>set (history r k). h < a) \<and> length (filter (\<lambda>h. a - Minute \<le> h) (history r k)) \<le> 1"
  shows "resultsFor k cs (snd (admitAll r cs)) = replicate (length (timesFor k cs)) True"
  using assms
proof (induction cs arbitrary: r)
  case Nil
  then show ?case by (simp add: resultsFor_def timesFor_def)
next
  case (Cons c cs)
  obtain k' a where c: "c = (k', a)" by (cases c)
  show ?case
  proof (cases "k' = k")
    case False
    let ?r1 = "fst (IsAllowed r k' a)"
    have lim: "2 \<le> requestsPerMinute ?r1" using Cons.prems(1) by simp
    have h: "history ?r1 k = history r k" using False by (rule history_other)
    have "resultsFor k cs (snd (admitAll ?r1 cs)) = replicate (length (timesFor k cs)) True"
    proof (rule Cons.IH[OF lim])
      show "successively (\<lambda>s t. t = s + Minute) (timesFor k cs)"
        using Cons.prems(2) False by (simp add: c timesFor_Cons)
      show "\<forall>a. timesFor k cs \<noteq> [] \<and> a = hd (timesFor k cs) \<longrightarrow>
           (\<forall>h\<in>set (history ?r1 k). h < a) \<and> length (filter (\<lambda>h. a - Minute \<le> h) (history ?r1 k)) \<le> 1"
        using Cons.prems(3) False by (simp add: c timesFor_Cons h)
    qed
    then show ?thesis using False
      by (simp add: c admitAll_Cons_snd resultsFor_Cons timesFor_Cons del: admitAll.simps)
  next
    case True
    let ?r1 = "fst (IsAllowed r k a)"
    let ?hs = "history r k"
    let ?kept = "filter (\<lambda>t. a - Minute \<le> t) ?hs"
    have ck: "c = (k, a)" using c True by simp
    have one: "1 \<le> requestsPerMinute r" using Cons.prems(1) by simp
    have lim: "2 \<le> requestsPerMinute ?r1" using Cons.prems(1) by simp
    have old: "\<forall>h\<in>set ?hs. h < a" and few: "length ?kept \<le> 1"
      using Cons.prems(3) by (simp_all add: ck timesFor_Cons)
    have under: "int (length ?kept) < requestsPerMinute r"
      using few Cons.prems(1) by linarith
    have hist1: "history ?r1 k = ?kept @ [a]"
      using IsAllowed_history(1)[OF one, of k a] under by (simp add: Let_def)
    have res1: "snd (IsAllowed r k a)"
      using IsAllowed_history(2)[OF one, of k a] under by simp
    have "resultsFor k cs (snd (admitAll ?r1 cs)) = replicate (length (timesFor k cs)) True"
    proof (rule Cons.IH[OF lim])
      show "successively (\<lambda>s t. t = s + Minute) (timesFor k cs)"
        using Cons.prems(2) by (cases "timesFor k cs") (simp_all add: ck timesFor_Cons)
      show "\<forall>b. timesFor k cs \<noteq> [] \<and> b = hd (timesFor k cs) \<longrightarrow>
           (\<forall>h\<in>set (history ?r1 k). h < b) \<and> length (filter (\<lambda>h. b - Minute \<le> h) (history ?r1 k)) \<le> 1"
      proof (intro allI impI, elim conjE)
        fix b assume ne: "timesFor k cs \<noteq> []" and b: "b = hd (timesFor k cs)"
        have "b = a + Minute"
          using Cons.prems(2) ne b by (cases "timesFor k cs") (simp_all add: ck timesFor_Cons)
        moreover have "filter (\<lambda>h. a \<le> h) ?kept = []"
          using old by (auto simp: filter_empty_conv)
        ultimately show "(\<forall>h\<in>set (history ?r1 k). h < b) \<and> length (filter (\<lambda>h. b - Minute \<le> h) (history ?r1 k)) \<le> 1"
          using old by (auto simp: hist1 Minute_def Second_def)
      qed
    qed
    then show ?thesis using res1
      by (simp add: ck admitAll_Cons_snd resultsFor_Cons timesFor_Cons del: admitAll.simps)
  qed
qed

text \<open>
  Claim C4, amended. Let the limit be at least 2 and the customer \<open>k\<close> unseen. Calls for
  \<open>k\<close> whose times are exactly 60 seconds apart, each after the one before, are all
  allowed (calls for other customers may come in between). The stored time that is
  exactly 60 seconds old is kept and counted (claim C5); only older ones are pruned.
\<close>

theorem spaced_one_minute_all_allowed:
  assumes "2 \<le> requestsPerMinute r"
    and "requests r k = None"
    and "successively (\<lambda>s t. t = s + 60 * Second) (timesFor k cs)"
  shows "resultsFor k cs (snd (admitAll r cs)) = replicate (length (timesFor k cs)) True"
proof -
  have "history r k = []" using assms(2) by (simp add: history_def)
  moreover have "successively (\<lambda>s t. t = s + Minute) (timesFor k cs)"
    using assms(3) by (simp add: Minute_def)
  ultimately show ?thesis using admitAll_spaced[OF assms(1), of k cs] by simp
qed

text \<open>Limit 2, calls for \<open>c1\<close> at 0, 60 and 120 seconds.\<close>

theorem spaced_one_minute_all_allowed_witness:
  "resultsFor ''c1'' [(''c1'', 0), (''c1'', 60 * Second), (''c2'', 0), (''c1'', 120 * Second)]
     (snd (admitAll (NewRateLimiter 2)
        [(''c1'', 0), (''c1'', 60 * Second), (''c2'', 0), (''c1'', 120 * Second)]))
   = [True, True, True]"
  using spaced_one_minute_all_allowed[of "NewRateLimiter 2" "''c1''"
      "[(''c1'', 0), (''c1'', 60 * Second), (''c2'', 0), (''c1'', 120 * Second)]"]
  by (simp add: NewRateLimiter_def timesFor_def Second_def numeral_eq_Suc)

text \<open>
  Claim C4 as stated fails at limit 1: the call 60 seconds after the first finds the
  first still in the window and is denied.
\<close>

theorem limit_one_minute_spacing_denied:
  "snd (admitAll (NewRateLimiter 1) [(''c1'', 0), (''c1'', 60 * Second)]) = [True, False]"
  by (simp add: NewRateLimiter_def IsAllowed_def Let_def inWindow_def After_def Equal_def
        Add_def Minute_def Second_def)

text \<open>
  Claim C5. For a customer with a stored slice, \<^verbatim>\<open>IsAllowed\<close> keeps exactly the stored
  times \<open>t\<close> with \<open>t \<ge> at - 60s\<close>, in their order; under the limit it appends
  \<open>at\<close> and allows, otherwise it denies and stores the kept times with nothing
  appended. A stored time exactly 60 seconds before \<open>at\<close> is still stored afterwards.
\<close>

theorem IsAllowed_prune_inclusive:
  assumes "requests r k = Some stored"
  shows "IsAllowed r k a =
          (let kept = filter (\<lambda>t. t \<ge> a - 60 * Second) stored
           in if int (length kept) < requestsPerMinute r
              then (r\<lparr>requests := (requests r)(k \<mapsto> kept @ [a])\<rparr>, True)
              else (r\<lparr>requests := (requests r)(k \<mapsto> kept)\<rparr>, False))
       \<and> (a - 60 * Second \<in> set stored \<longrightarrow> a - 60 * Second \<in> set (history (fst (IsAllowed r k a)) k))"
  using assms by (simp add: IsAllowed_def Let_def inWindow_fun Minute_def Add_def history_def)

text \<open>
  Limit 1, stored times 0s and 1s, a call at 61s: 0s is pruned, 1s (exactly 60 seconds
  old) is kept and counted, and the call is denied.
\<close>

theorem IsAllowed_prune_inclusive_witness:
  "IsAllowed \<lparr>requestsPerMinute = 1, requests = [''c1'' \<mapsto> [0, Second]]\<rparr> ''c1'' (61 * Second)
     = (\<lparr>requestsPerMinute = 1, requests = [''c1'' \<mapsto> [Second]]\<rparr>, False)
   \<and> Second \<in> set (history (fst (IsAllowed \<lparr>requestsPerMinute = 1, requests = [''c1'' \<mapsto> [0, Second]]\<rparr>
                                  ''c1'' (61 * Second))) ''c1'')"
  using IsAllowed_prune_inclusive[of "\<lparr>requestsPerMinute = 1, requests = [''c1'' \<mapsto> [0, Second]]\<rparr>"
      "''c1''" "[0, Second]" "61 * Second"]
  by (simp add: Second_def history_def)

text \<open>
  Claim C9, amended. \<^verbatim>\<open>GetRemainingRequests\<close> leaves the limiter as it found it, and a
  second call with no \<^verbatim>\<open>IsAllowed\<close> in between returns the same value whenever each
  stored time of the customer is inside the 60-second window of both clock readings or
  outside both (at the same clock reading in particular).
\<close>

theorem GetRemainingRequests_read_only:
  "fst (GetRemainingRequests r k now) = r
   \<and> ((\<forall>t\<in>set (history r k). (now - 60 * Second \<le> t) = (now' - 60 * Second \<le> t)) \<longrightarrow>
        snd (GetRemainingRequests (fst (GetRemainingRequests r k now)) k now')
          = snd (GetRemainingRequests r k now))"
proof -
  have "\<forall>t\<in>set hs. (now - Minute \<le> t) = (now' - Minute \<le> t) \<Longrightarrow>
        filter (\<lambda>t. now' - Minute \<le> t) hs = filter (\<lambda>t. now - Minute \<le> t) hs" for hs
    by (rule filter_cong) auto
  then show ?thesis
    by (auto simp: GetRemainingRequests_def Let_def countValid_filter inWindow_fun Add_def
          history_def Minute_def split: option.splits)
qed

text \<open>One stored time at 0s, clock readings 10s and 20s: 4 of 5 remain both times.\<close>

theorem GetRemainingRequests_read_only_witness:
  "snd (GetRemainingRequests (fst (GetRemainingRequests \<lparr>requestsPerMinute = 5, requests = [''c1'' \<mapsto> [0]]\<rparr> ''c1'' (10 * Second))) ''c1'' (20 * Second)) = 4"
  using GetRemainingRequests_read_only[of "\<lparr>requestsPerMinute = 5, requests = [''c1'' \<mapsto> [0]]\<rparr>"
      "''c1''" "10 * Second" "20 * Second"]
  by (simp add: history_def Second_def GetRemainingRequests_def Minute_def Add_def inWindow_def After_def Equal_def)

text \<open>
  Claim C9 as stated fails when the clock moves on: with one request stored at 0s, the
  call at clock reading 30s returns 4 and the next call, at 61s, returns 5.
\<close>

theorem remaining_changes_with_clock:
  "snd (GetRemainingRequests (fst (IsAllowed (NewRateLimiter 5) ''c1'' 0)) ''c1'' (30 * Second)) = 4
   \<and> snd (GetRemainingRequests
           (fst (GetRemainingRequests (fst (IsAllowed (NewRateLimiter 5) ''c1'' 0)) ''c1'' (30 * Second)))
           ''c1'' (61 * Second)) = 5"
  by (simp add: GetRemainingRequests_def IsAllowed_def NewRateLimiter_def Minute_def Second_def
        Add_def inWindow_def After_def Equal_def)

lemma IsAllowed_bounded:
  assumes "1 \<le> requestsPerMinute r" and "bounded r"
  shows "bounded (fst (IsAllowed r k a))"
  unfolding bounded_def
proof
  fix k'
  show "int (length (history (fst (IsAllowed r k a)) k')) \<le> requestsPerMinute (fst (IsAllowed r k a))"
  proof (cases "k' = k")
    case True
    have "length (filter (\<lambda>t. a - Minute \<le> t) (history r k)) \<le> length (history r k)"
      by (rule length_filter_le)
    moreover have "int (length (history r k)) \<le> requestsPerMinute r"
      using assms(2) by (simp add: bounded_def)
    ultimately have "int (length (filter (\<lambda>t. a - Minute \<le> t) (history r k))) \<le> requestsPerMinute r"
      by linarith
    then show ?thesis using True IsAllowed_history(1)[OF assms(1), of k a]
      by (simp add: Let_def)
  next
    case False
    then have "history (fst (IsAllowed r k a)) k' = history r k'"
      by (simp add: history_other)
    then show ?thesis using assms(2) by (simp add: bounded_def)
  qed
qed

lemma admitAll_bounded:
  "1 \<le> requestsPerMinute r \<Longrightarrow> bounded r \<Longrightarrow> bounded (fst (admitAll r cs))"
proof (induction cs arbitrary: r)
  case Nil
  then show ?case by simp
next
  case (Cons c cs)
  obtain k a where c: "c = (k, a)" by (cases c)
  have "bounded (fst (admitAll (fst (IsAllowed r k a)) cs))"
    using Cons.prems by (intro Cons.IH IsAllowed_bounded) simp_all
  then show ?case by (simp add: c admitAll_Cons_fst del: admitAll.simps)
qed

lemma countValid_bounds: "0 \<le> countValid w ts \<and> countValid w ts \<le> int (length ts)"
  by (induction ts) auto

lemma remaining_eq:
  "snd (GetRemainingRequests r k now) = requestsPerMinute r - countValid (now - Minute) (history r k)"
  by (simp add: GetRemainingRequests_def Let_def history_def Add_def split: option.splits)

text \<open>
  The first call for an unseen customer stores its time whatever the limit is, so that
  with limit 0 the remaining count at that time is -1.
\<close>

lemma seeded_without_check:
  "IsAllowed (NewRateLimiter M) k a = (\<lparr>requestsPerMinute = M, requests = [k \<mapsto> [a]]\<rparr>, True)"
  "snd (GetRemainingRequests (fst (IsAllowed (NewRateLimiter M) k a)) k a) = M - 1"
  by (simp_all add: IsAllowed_def NewRateLimiter_def GetRemainingRequests_def Add_def Minute_def Second_def
        inWindow_def After_def Equal_def)

text \<open>
  Claim C10. For a limiter constructed with limit \<open>N \<ge> 1\<close>, after any sequence of
  \<^verbatim>\<open>IsAllowed\<close> calls every customer's stored slice holds at most \<open>N\<close> times, and
  \<^verbatim>\<open>GetRemainingRequests\<close> returns a value between 0 and \<open>N\<close> at any clock reading.
  The bound on \<open>N\<close> is needed: with any limit \<open>M\<close> the first call for an unseen
  customer stores one time, and the remaining count at that time is \<open>M - 1\<close>.
\<close>

theorem history_and_remaining_bounded:
  "(1 \<le> N \<longrightarrow>
      int (length (history (fst (admitAll (NewRateLimiter N) cs)) k)) \<le> N
      \<and> 0 \<le> snd (GetRemainingRequests (fst (admitAll (NewRateLimiter N) cs)) k now)
      \<and> snd (GetRemainingRequests (fst (admitAll (NewRateLimiter N) cs)) k now) \<le> N)
   \<and> history (fst (IsAllowed (NewRateLimiter M) k a)) k = [a]
   \<and> snd (GetRemainingRequests (fst (IsAllowed (NewRateLimiter M) k a)) k a) = M - 1"
proof -
  let ?r = "fst (admitAll (NewRateLimiter N) cs)"
  have lim: "requestsPerMinute ?r = N" by (simp add: NewRateLimiter_def)
  have "int (length (history ?r k)) \<le> N
      \<and> 0 \<le> snd (GetRemainingRequests ?r k now) \<and> snd (GetRemainingRequests ?r k now) \<le> N"
    if N: "1 \<le> N"
  proof -
    have "bounded (NewRateLimiter N)"
      using N by (simp add: bounded_def history_def NewRateLimiter_def)
    then have "bounded ?r"
      using N by (intro admitAll_bounded) (simp_all add: NewRateLimiter_def)
    then have len: "int (length (history ?r k)) \<le> N"
      using lim by (simp add: bounded_def)
    then show ?thesis
      using lim countValid_bounds[of "now - Minute" "history ?r k"] by (simp add: remaining_eq)
  qed
  moreover have "history (fst (IsAllowed (NewRateLimiter M) k a)) k = [a]"
    by (simp add: seeded_without_check(1) history_def)
  ultimately show ?thesis
    using seeded_without_check(2)[of M k a] by blast
qed

text \<open>
  Limit 2 and three calls at the same time: two are stored, none remains. Limit 0 and
  one call: one is stored.
\<close>

theorem history_and_remaining_bounded_witness:
  "history (fst (admitAll (NewRateLimiter 2) [(''c1'', 0), (''c1'', 0), (''c1'', 0)])) ''c1'' = [0, 0]
   \<and> snd (GetRemainingRequests (fst (admitAll (NewRateLimiter 2) [(''c1'', 0), (''c1'', 0), (''c1'', 0)])) ''c1'' 0) = 0
   \<and> snd (GetRemainingRequests (fst (IsAllowed (NewRateLimiter 0) ''c1'' 0)) ''c1'' 0) = - 1"
  using history_and_remaining_bounded[where N=2 and cs="[(''c1'', 0), (''c1'', 0), (''c1'', 0)]"
      and k="''c1''" and now=0 and M=0 and a=0]
  by (simp add: NewRateLimiter_def IsAllowed_def history_def GetRemainingRequests_def Let_def
        inWindow_def After_def Equal_def Add_def Minute_def Second_def)

section \<open>The matcher decides the language of the pattern\<close>

lemma nullable_lang: "nullable r \<longleftrightarrow> [] \<in> lang r"
  by (induction r) (auto intro: star.star_empty)

lemma star_Cons:
  "c # w \<in> star A \<longleftrightarrow> (\<exists>u v. w = u @ v \<and> c # u \<in> A \<and> v \<in> star A)"
proof
  assume "c # w \<in> star A"
  then show "\<exists>u v. w = u @ v \<and> c # u \<in> A \<and> v \<in> star A"
  proof (induction "c # w" rule: star.induct)
    case (star_more u v)
    show ?case
    proof (cases u)
      case Nil
      then show ?thesis using star_more by simp
    next
      case (Cons d u')
      then show ?thesis using star_more by auto
    qed
  qed
next
  assume "\<exists>u v. w = u @ v \<and> c # u \<in> A \<and> v \<in> star A"
  then obtain u v where "w = u @ v" "c # u \<in> A" "v \<in> star A" by blast
  then show "c # w \<in> star A"
    using star.star_more[of "c # u" A v] by simp
qed

lemma lang_deriv: "lang (deriv c r) = {w. c # w \<in> lang r}"
proof (induction r)
  case (Concat r s)
  show ?case
  proof (rule set_eqI)
    fix w
    have "c # w \<in> lang (Concat r s) \<longleftrightarrow>
            ([] \<in> lang r \<and> c # w \<in> lang s) \<or> (\<exists>u v. w = u @ v \<and> c # u \<in> lang r \<and> v \<in> lang s)"
      by (auto simp: Cons_eq_append_conv)
    then show "w \<in> lang (deriv c (Concat r s)) \<longleftrightarrow> w \<in> {w. c # w \<in> lang (Concat r s)}"
      using Concat by (auto simp: nullable_lang)
  qed
next
  case (Star r)
  then show ?case by (auto simp: star_Cons)
qed auto

lemma MatchString_lang: "MatchString r w \<longleftrightarrow> w \<in> lang r"
  by (induction w arbitrary: r) (simp_all add: nullable_lang lang_deriv)

lemma star_class: "star {[c] | c. P c} = {w. list_all P w}"
proof (rule set_eqI, rule iffI)
  fix w assume "w \<in> star {[c] | c. P c}"
  then show "w \<in> {w. list_all P w}"
    by (induction rule: star.induct) auto
next
  fix w assume "w \<in> {w. list_all P w}"
  then have "list_all P w" by simp
  then show "w \<in> star {[c] | c. P c}"
  proof (induction w)
    case Nil
    show ?case by (rule star.star_empty)
  next
    case (Cons c w)
    then have "[c] \<in> {[c] | c. P c}" and "w \<in> star {[c] | c. P c}" by auto
    then have "[c] @ w \<in> star {[c] | c. P c}" by (rule star.star_more)
    then show ?case by simp
  qed
qed

lemma class_then:
  "(\<exists>u v. c # w = u @ v \<and> (\<exists>d. u = [d] \<and> P d) \<and> Q v) \<longleftrightarrow> P c \<and> Q w"
proof
  assume "\<exists>u v. c # w = u @ v \<and> (\<exists>d. u = [d] \<and> P d) \<and> Q v"
  then obtain u v d where "c # w = u @ v" "u = [d]" "P d" "Q v" by auto
  then show "P c \<and> Q w" by simp
next
  assume "P c \<and> Q w"
  then have "c # w = [c] @ w \<and> (\<exists>d. [c] = [d] \<and> P d) \<and> Q w" by simp
  then show "\<exists>u v. c # w = u @ v \<and> (\<exists>d. u = [d] \<and> P d) \<and> Q v"
    by (intro exI)
qed

lemma lang_Plus1_class:
  "w \<in> lang (Plus1 (CharClass rs)) \<longleftrightarrow> w \<noteq> [] \<and> list_all (inClass rs) w"
proof (cases w)
  case Nil
  have "[] \<in> lang (Plus1 (CharClass rs)) \<longleftrightarrow> False"
    by (simp add: Plus1_def)
  then show ?thesis using Nil by simp
next
  case (Cons c v)
  have "c # v \<in> lang (Plus1 (CharClass rs)) \<longleftrightarrow> inClass rs c \<and> list_all (inClass rs) v"
    by (simp add: Plus1_def class_then star_class)
  then show ?thesis using Cons by simp
qed

lemma lang_upTo_class:
  "w \<in> lang (upTo (CharClass rs) n) \<longleftrightarrow> length w \<le> n \<and> list_all (inClass rs) w"
proof (induction n arbitrary: w)
  case 0
  show ?case by auto
next
  case (Suc n)
  show ?case
  proof (cases w)
    case Nil
    then show ?thesis by simp
  next
    case (Cons c v)
    have "c # v \<in> lang (upTo (CharClass rs) (Suc n)) \<longleftrightarrow> inClass rs c \<and> v \<in> lang (upTo (CharClass rs) n)"
      by (simp add: class_then)
    then show ?thesis using Cons Suc[of v] by auto
  qed
qed

lemma lang_Repeat_class:
  "m \<le> n \<Longrightarrow> w \<in> lang (Repeat (CharClass rs) m n)
     \<longleftrightarrow> m \<le> length w \<and> length w \<le> n \<and> list_all (inClass rs) w"
proof (induction m arbitrary: n w)
  case 0
  show ?case by (simp add: lang_upTo_class)
next
  case (Suc m)
  have le: "m \<le> n - 1" using Suc.prems by simp
  show ?case
  proof (cases w)
    case Nil
    have "[] \<in> lang (Repeat (CharClass rs) (Suc m) n) \<longleftrightarrow> False"
      by simp
    then show ?thesis using Nil by simp
  next
    case (Cons c v)
    have "c # v \<in> lang (Repeat (CharClass rs) (Suc m) n)
            \<longleftrightarrow> inClass rs c \<and> v \<in> lang (Repeat (CharClass rs) m (n - 1))"
      by (simp add: class_then)
    then show ?thesis using Cons Suc.IH[OF le, of v] Suc.prems by auto
  qed
qed

lemma lang_Literal: "lang (Literal c) = {[c]}"
  by (auto simp: Literal_def)

section \<open>Properties of the validator\<close>

lemma inClass_local:
  "inClass [(CHR ''a'', CHR ''z''), (CHR ''0'', CHR ''9''), (CHR ''.'', CHR ''.''),
            (CHR ''_'', CHR ''_''), (CHR ''%'', CHR ''%''), (CHR ''+'', CHR ''+''),
            (CHR ''-'', CHR ''-'')] = localChar"
  by (rule ext) (auto simp: localChar_def lowercase_def digit_def)

lemma inClass_domain:
  "inClass [(CHR ''a'', CHR ''z''), (CHR ''0'', CHR ''9''), (CHR ''.'', CHR ''.''),
            (CHR ''-'', CHR ''-'')] = domainChar"
  by (rule ext) (auto simp: domainChar_def lowercase_def digit_def)

lemma inClass_lower: "inClass [(CHR ''a'', CHR ''z'')] = lowercase"
  by (rule ext) (simp add: lowercase_def)

lemma lang_ConcatI: "u \<in> lang r \<Longrightarrow> v \<in> lang s \<Longrightarrow> u @ v \<in> lang (Concat r s)"
  by auto

lemma lang_ConcatE:
  assumes "w \<in> lang (Concat r s)"
  obtains u v where "w = u @ v" "u \<in> lang r" "v \<in> lang s"
  using assms by auto

lemma lang_emailRegex: "w \<in> lang emailRegex \<longleftrightarrow> emailGrammar w"
proof
  assume "w \<in> lang emailRegex"
  then obtain l v1 where w: "w = l @ v1"
      and l: "l \<in> lang (Plus1 (CharClass [(CHR ''a'', CHR ''z''), (CHR ''0'', CHR ''9''),
                 (CHR ''.'', CHR ''.''), (CHR ''_'', CHR ''_''), (CHR ''%'', CHR ''%''),
                 (CHR ''+'', CHR ''+''), (CHR ''-'', CHR ''-'')]))"
      and v1: "v1 \<in> lang (Concat (Literal CHR ''@'')
                 (Concat (Plus1 (CharClass [(CHR ''a'', CHR ''z''), (CHR ''0'', CHR ''9''),
                            (CHR ''.'', CHR ''.''), (CHR ''-'', CHR ''-'')]))
                 (Concat (Literal CHR ''.'') (Repeat (CharClass [(CHR ''a'', CHR ''z'')]) 2 4))))"
    unfolding emailRegex_def by (rule lang_ConcatE)
  from v1 obtain a v2 where v1': "v1 = a @ v2" and a: "a \<in> lang (Literal CHR ''@'')"
      and v2: "v2 \<in> lang (Concat (Plus1 (CharClass [(CHR ''a'', CHR ''z''), (CHR ''0'', CHR ''9''),
                            (CHR ''.'', CHR ''.''), (CHR ''-'', CHR ''-'')]))
                 (Concat (Literal CHR ''.'') (Repeat (CharClass [(CHR ''a'', CHR ''z'')]) 2 4)))"
    by (rule lang_ConcatE)
  from v2 obtain d v3 where v2': "v2 = d @ v3"
      and d: "d \<in> lang (Plus1 (CharClass [(CHR ''a'', CHR ''z''), (CHR ''0'', CHR ''9''),
                            (CHR ''.'', CHR ''.''), (CHR ''-'', CHR ''-'')]))"
      and v3: "v3 \<in> lang (Concat (Literal CHR ''.'') (Repeat (CharClass [(CHR ''a'', CHR ''z'')]) 2 4))"
    by (rule lang_ConcatE)
  from v3 obtain p t where v3': "v3 = p @ t" and p: "p \<in> lang (Literal CHR ''.'')"
      and t: "t \<in> lang (Repeat (CharClass [(CHR ''a'', CHR ''z'')]) 2 4)"
    by (rule lang_ConcatE)
  have "w = l @ ''@'' @ d @ ''.'' @ t"
    using w v1' v2' v3' a p by (simp add: lang_Literal)
  moreover have "l \<noteq> [] \<and> list_all localChar l"
    using l unfolding lang_Plus1_class inClass_local .
  moreover have "d \<noteq> [] \<and> list_all domainChar d"
    using d unfolding lang_Plus1_class inClass_domain .
  moreover have "2 \<le> length t \<and> length t \<le> 4 \<and> list_all lowercase t"
    using t lang_Repeat_class[of 2 4 t "[(CHR ''a'', CHR ''z'')]"] unfolding inClass_lower by simp
  ultimately have "w = l @ ''@'' @ d @ ''.'' @ t \<and> l \<noteq> [] \<and> list_all localChar l
        \<and> d \<noteq> [] \<and> list_all domainChar d
        \<and> 2 \<le> length t \<and> length t \<le> 4 \<and> list_all lowercase t"
    by simp
  then show "emailGrammar w"
    unfolding emailGrammar_def by (intro exI)
next
  assume "emailGrammar w"
  then obtain l d t where w: "w = l @ ''@'' @ d @ ''.'' @ t"
      and l: "l \<noteq> [] \<and> list_all localChar l"
      and d: "d \<noteq> [] \<and> list_all domainChar d"
      and t: "2 \<le> length t \<and> length t \<le> 4 \<and> list_all lowercase t"
    unfolding emailGrammar_def by (elim exE conjE) simp
  have t': "t \<in> lang (Repeat (CharClass [(CHR ''a'', CHR ''z'')]) 2 4)"
    using t lang_Repeat_class[of 2 4 t "[(CHR ''a'', CHR ''z'')]"] unfolding inClass_lower by simp
  have dot: "''.'' \<in> lang (Literal CHR ''.'')"
    by (simp add: lang_Literal)
  have d': "d \<in> lang (Plus1 (CharClass [(CHR ''a'', CHR ''z''), (CHR ''0'', CHR ''9''),
                            (CHR ''.'', CHR ''.''), (CHR ''-'', CHR ''-'')]))"
    using d unfolding lang_Plus1_class inClass_domain .
  have at: "''@'' \<in> lang (Literal CHR ''@'')"
    by (simp add: lang_Literal)
  have l': "l \<in> lang (Plus1 (CharClass [(CHR ''a'', CHR ''z''), (CHR ''0'', CHR ''9''),
                 (CHR ''.'', CHR ''.''), (CHR ''_'', CHR ''_''), (CHR ''%'', CHR ''%''),
                 (CHR ''+'', CHR ''+''), (CHR ''-'', CHR ''-'')]))"
    using l unfolding lang_Plus1_class inClass_local .
  have "l @ ''@'' @ d @ ''.'' @ t \<in> lang emailRegex"
    unfolding emailRegex_def
    by (rule lang_ConcatI[OF l' lang_ConcatI[OF at lang_ConcatI[OF d' lang_ConcatI[OF dot t']]]])
  then show "w \<in> lang emailRegex" using w by simp
qed

lemma uppercase_not_lowercase: "uppercase c \<Longrightarrow> \<not> lowercase c"
proof
  assume "uppercase c" and "lowercase c"
  then have "CHR ''a'' \<le> c" and "c \<le> CHR ''Z''"
    by (simp_all add: uppercase_def lowercase_def)
  then have "CHR ''a'' \<le> CHR ''Z''" by (rule order_trans)
  then show False by simp
qed

lemma uppercase_not_digit: "uppercase c \<Longrightarrow> \<not> digit c"
proof
  assume "uppercase c" and "digit c"
  then have "CHR ''A'' \<le> c" and "c \<le> CHR ''9''"
    by (simp_all add: uppercase_def digit_def)
  then have "CHR ''A'' \<le> CHR ''9''" by (rule order_trans)
  then show False by simp
qed

lemma uppercase_outside:
  assumes "uppercase c"
  shows "\<not> localChar c" and "\<not> domainChar c" and "c \<noteq> CHR ''@''" and "c \<noteq> CHR ''.''"
proof -
  have no: "\<not> uppercase CHR ''.''" "\<not> uppercase CHR ''_''" "\<not> uppercase CHR ''%''"
      "\<not> uppercase CHR ''+''" "\<not> uppercase CHR ''-''" "\<not> uppercase CHR ''@''"
    by (simp_all add: uppercase_def)
  show "\<not> localChar c"
    using assms no uppercase_not_lowercase[of c] uppercase_not_digit[of c]
    unfolding localChar_def by auto
  show "\<not> domainChar c"
    using assms no uppercase_not_lowercase[of c] uppercase_not_digit[of c]
    unfolding domainChar_def by auto
  show "c \<noteq> CHR ''@''" using assms no by auto
  show "c \<noteq> CHR ''.''" using assms no by auto
qed

text \<open>
  Claim C7. \<^verbatim>\<open>isValidEmail\<close> accepts a string if and only if it is a local part of
  one or more characters from lowercase letters, digits and \<^verbatim>\<open>. _ % + -\<close>, then
  \<^verbatim>\<open>@\<close>, then a domain of one or more characters from lowercase letters, digits,
  \<^verbatim>\<open>.\<close> and \<^verbatim>\<open>-\<close>, then \<^verbatim>\<open>.\<close>, then 2 to 4 lowercase letters; and a string with
  an uppercase letter anywhere is rejected.
\<close>

theorem isValidEmail_grammar:
  "(isValidEmail s \<longleftrightarrow> emailGrammar s) \<and> ((\<exists>c\<in>set s. uppercase c) \<longrightarrow> \<not> isValidEmail s)"
proof -
  have eq: "isValidEmail s \<longleftrightarrow> emailGrammar s"
    unfolding isValidEmail_def MatchString_lang by (rule lang_emailRegex)
  have "\<not> emailGrammar s" if "\<exists>c\<in>set s. uppercase c"
  proof
    assume "emailGrammar s"
    then obtain l d t where s: "s = l @ ''@'' @ d @ ''.'' @ t"
      and l: "list_all localChar l" and d: "list_all domainChar d" and t: "list_all lowercase t"
      unfolding emailGrammar_def by (elim exE conjE)
    from that obtain c where c: "c \<in> set s" "uppercase c" by (elim bexE)
    then have "c \<in> set l \<or> c = CHR ''@'' \<or> c \<in> set d \<or> c = CHR ''.'' \<or> c \<in> set t"
      unfolding s by auto
    then show False
      using l d t c(2) uppercase_outside[of c] uppercase_not_lowercase[of c]
      unfolding list_all_iff by blast
  qed
  then show ?thesis using eq by simp
qed

text \<open>The address of the validator's tests is in the grammar; capitalised, it is rejected.\<close>

theorem isValidEmail_grammar_witness:
  "emailGrammar ''test@example.com'' \<and> \<not> isValidEmail ''Test@example.com''"
proof -
  have v: "isValidEmail ''test@example.com''"
    by (simp add: isValidEmail_def emailRegex_def Plus1_def Literal_def numeral_eq_Suc)
  have u: "\<exists>c\<in>set ''Test@example.com''. uppercase c"
    by (simp add: uppercase_def)
  have "emailGrammar ''test@example.com''"
    using isValidEmail_grammar[of "''test@example.com''"] v by (elim conjE) (erule iffD1)
  moreover have "\<not> isValidEmail ''Test@example.com''"
    using isValidEmail_grammar[of "''Test@example.com''"] u by (elim conjE impE)
  ultimately show ?thesis ..
qed

text \<open>Validation and the log.\<close>

lemma writeErrorLog_written:
  "logResult x = LogWritten \<Longrightarrow>
     fst (writeErrorLog v x c reason) =
       v\<lparr>errorLog := errorLog v @ [\<lparr>logCustomerId = c, logReason = reason, logCreatedAt = clockLog x\<rparr>],
         errorCount := errorCount v + 1\<rparr>"
  by (simp add: writeErrorLog_def)

lemma ValidateSample_cases:
  "ValidateSample v x sample =
     (if CustomerID sample = '''' then (fst (writeErrorLog v x (CustomerID sample) ''customer_id is required''), Some ''customer_id is required'')
      else if \<not> isValidEmail (Email sample) then (fst (writeErrorLog v x (CustomerID sample) ''invalid email format''), Some ''invalid email format'')
      else if Name sample = '''' then (fst (writeErrorLog v x (CustomerID sample) ''name is required''), Some ''name is required'')
      else if IsZero (CreatedAt sample) then (fst (writeErrorLog v x (CustomerID sample) ''created_at is required''), Some ''created_at is required'')
      else (v, None))"
  by (simp add: ValidateSample_def ValidateSampleBody_def)

lemma ValidateSample_account:
  assumes "logResult x = LogWritten"
  shows "case ValidateSample v x sample of
           (v', None) \<Rightarrow> v' = v
         | (v', Some e) \<Rightarrow> errorCount v' = errorCount v + 1
               \<and> errorLog v' = errorLog v @ [\<lparr>logCustomerId = CustomerID sample, logReason = e, logCreatedAt = clockLog x\<rparr>]"
  by (simp add: ValidateSample_cases writeErrorLog_written[OF assms])

text \<open>
  Claim C6. \<^verbatim>\<open>ValidateSample\<close> returns the reason of the first rule that fails, in
  the order customer id, email, name, creation time, and no error when none fails. When
  it returns a reason and the log can be written, the validator's state changes by
  exactly one block, carrying that reason, and one count: no later rule has logged
  anything. When it returns no error the validator is unchanged.
\<close>

theorem ValidateSample_precedence:
  "snd (ValidateSample v x sample) =
     (if CustomerID sample = '''' then Some ''customer_id is required''
      else if \<not> isValidEmail (Email sample) then Some ''invalid email format''
      else if Name sample = '''' then Some ''name is required''
      else if IsZero (CreatedAt sample) then Some ''created_at is required''
      else None)
   \<and> (\<forall>reason. snd (ValidateSample v x sample) = Some reason \<and> logResult x = LogWritten \<longrightarrow>
          fst (ValidateSample v x sample) =
            \<lparr>errorCount = errorCount v + 1,
             errorLog = errorLog v @ [\<lparr>logCustomerId = CustomerID sample, logReason = reason,
                                      logCreatedAt = clockLog x\<rparr>]\<rparr>)
   \<and> (snd (ValidateSample v x sample) = None \<longrightarrow> fst (ValidateSample v x sample) = v)"
  by (simp add: ValidateSample_cases writeErrorLog_def)

text \<open>A sample that breaks all four rules is rejected for its customer id, once.\<close>

theorem ValidateSample_precedence_witness:
  "ValidateSample (NewValidator []) calm
      \<lparr>CustomerID = '''', Email = ''not-an-email'', Name = '''', CreatedAt = 0, UpdatedAt = 0\<rparr>
    = (\<lparr>errorCount = 1,
        errorLog = [\<lparr>logCustomerId = '''', logReason = ''customer_id is required'',
                     logCreatedAt = clockLog calm\<rparr>]\<rparr>,
       Some ''customer_id is required'')"
  using ValidateSample_precedence[of "NewValidator []" calm
      "\<lparr>CustomerID = '''', Email = ''not-an-email'', Name = '''', CreatedAt = 0, UpdatedAt = 0\<rparr>"]
  by (simp add: NewValidator_def calm_def prod_eq_iff)

section \<open>Properties of the service\<close>

lemma ProcessSample_account:
  assumes "logResult x = LogWritten"
  shows "case ProcessSample parse s x cs of
           (s', None) \<Rightarrow> persisted s s'
         | (s', Some e) \<Rightarrow> rejected s s'"
proof (cases "parse (csCreatedAt cs)")
  case None
  then show ?thesis
    by (simp add: ProcessSample_def WriteErrorLog_def writeErrorLog_written[OF assms] rejected_def)
next
  case (Some createdAt)
  let ?sample = "\<lparr>CustomerID = csCustomerID cs, Email = csEmail cs, Name = csName cs,
                   CreatedAt = createdAt, UpdatedAt = 0\<rparr>"
  obtain v1 err where V: "ValidateSample (validator s) x ?sample = (v1, err)"
    by (cases "ValidateSample (validator s) x ?sample")
  show ?thesis
  proof (cases err)
    case (Some e)
    then show ?thesis
      using ValidateSample_account[OF assms, of "validator s" ?sample] V \<open>parse (csCreatedAt cs) = Some createdAt\<close>
      by (simp add: ProcessSample_def rejected_def)
  next
    case None
    then have v1: "v1 = validator s"
      using ValidateSample_account[OF assms, of "validator s" ?sample] V by simp
    obtain r1 ok where A: "IsAllowed (rateLimiter s) (csCustomerID cs) createdAt = (r1, ok)"
      by (cases "IsAllowed (rateLimiter s) (csCustomerID cs) createdAt")
    show ?thesis
      using None V A v1 \<open>parse (csCreatedAt cs) = Some createdAt\<close>
      by (cases ok; cases "insertResult x")
         (simp_all add: ProcessSample_def WriteErrorLog_def writeErrorLog_written[OF assms]
            rejected_def persisted_def)
  qed
qed

lemma processLoop_account:
  assumes "\<forall>p\<in>set samples. logResult (snd p) = LogWritten"
  shows "case processLoop parse s n samples of
           (s', n') \<Rightarrow> n \<le> n' \<and> errorCount (validator s) \<le> errorCount (validator s')
             \<and> (n' - n) + (errorCount (validator s') - errorCount (validator s)) = int (length samples)
             \<and> int (length (db s')) = int (length (db s)) + (n' - n)
             \<and> int (length (errorLog (validator s')))
                 = int (length (errorLog (validator s))) + (errorCount (validator s') - errorCount (validator s))"
  using assms
proof (induction samples arbitrary: s n)
  case Nil
  show ?case by simp
next
  case (Cons p samples)
  obtain cs x where p: "p = (cs, x)" by (cases p)
  have x: "logResult x = LogWritten" using Cons.prems by (simp add: p)
  have rest: "\<forall>p\<in>set samples. logResult (snd p) = LogWritten" using Cons.prems by simp
  obtain s1 err where P: "ProcessSample parse s x cs = (s1, err)"
    by (cases "ProcessSample parse s x cs")
  show ?case
  proof (cases err)
    case None
    then have "persisted s s1" using ProcessSample_account[OF x, where parse=parse and s=s and cs=cs] P by simp
    then show ?thesis
      using Cons.IH[OF rest, where s=s1 and n="n + 1"] P None
      by (auto simp: p persisted_def split: prod.splits)
  next
    case (Some e)
    then have "rejected s s1" using ProcessSample_account[OF x, where parse=parse and s=s and cs=cs] P by simp
    then show ?thesis
      using Cons.IH[OF rest, where s=s1 and n=n] P Some
      by (auto simp: p rejected_def split: prod.splits)
  qed
qed

text \<open>
  Claim C2, amended. Let every write to the error log succeed during the batch. Then
  \<^verbatim>\<open>ProcessSamples\<close> returns a result (never an error) in which success count plus
  error count is the validator's error count before the batch plus the number of
  samples, so that the two counts add up to the number of samples exactly when the
  validator starts at zero. Each sample is either inserted, and counted as a success, or
  adds one block to the log and one to the validator's counter. (The counters are Go
  \<^verbatim>\<open>int\<close>s, which a batch cannot make wrap unless the validator's counter is
  already within the length of the batch of the largest \<^verbatim>\<open>int\<close>; the model counts
  in unbounded integers.)
\<close>

theorem ProcessSamples_accounting:
  assumes "\<forall>p\<in>set samples. logResult (snd p) = LogWritten"
  shows "case ProcessSamples parse s samples of
           (s', Inl e) \<Rightarrow> False
         | (s', Inr res) \<Rightarrow>
             SuccessCount res + ErrorCount res = errorCount (validator s) + int (length samples)
             \<and> 0 \<le> SuccessCount res \<and> errorCount (validator s) \<le> ErrorCount res
             \<and> int (length (db s')) = int (length (db s)) + SuccessCount res
             \<and> int (length (errorLog (validator s')))
                 = int (length (errorLog (validator s))) + (ErrorCount res - errorCount (validator s))"
  using processLoop_account[OF assms, where parse=parse and s=s and n=0]
  by (auto simp: ProcessSamples_def GetErrorCount_def split: prod.splits)

lemma john_ok: "isValidEmail ''john@example.com''"
  by (simp add: isValidEmail_def emailRegex_def Plus1_def Literal_def numeral_eq_Suc)

lemma noEmail_bad: "\<not> isValidEmail ''not-an-email''"
  by (simp add: isValidEmail_def emailRegex_def Plus1_def Literal_def numeral_eq_Suc)

lemma first_batch:
  "ProcessSamples parseOne freshService [(noEmail, calm)] =
     (freshService\<lparr>validator := \<lparr>errorCount = 1, errorLog =
          [\<lparr>logCustomerId = ''3'', logReason = ''invalid email format'',
            logCreatedAt = 63900000001 * Second\<rparr>]\<rparr>\<rparr>,
      Inr \<lparr>SuccessCount = 0, ErrorCount = 1\<rparr>)"
  by (simp add: ProcessSamples_def ProcessSample_def parseOne_def noEmail_def calm_def
        freshService_def NewSampleService_def NewValidator_def ValidateSample_cases noEmail_bad
        writeErrorLog_def GetErrorCount_def)

text \<open>
  Claim C2 as stated, for every batch, fails for a second batch on the same validator:
  after a batch with one rejection, a batch of one valid sample returns success 1 and
  errors 1, which add up to 2 for 1 sample.
\<close>

theorem second_batch_counts_first:
  "snd (ProcessSamples parseOne (fst (ProcessSamples parseOne freshService [(noEmail, calm)])) [(john, calm)])
     = Inr \<lparr>SuccessCount = 1, ErrorCount = 1\<rparr>"
  by (simp add: first_batch)
     (simp add: ProcessSamples_def ProcessSample_def parseOne_def john_def calm_def
        freshService_def NewSampleService_def NewRateLimiter_def ValidateSample_cases john_ok
        IsZero_def Second_def IsAllowed_def GetErrorCount_def)

text \<open>A fresh service, one valid sample and one with a bad email: success 1, errors 1.\<close>

theorem ProcessSamples_accounting_witness:
  "ProcessSamples parseOne freshService [(john, calm), (noEmail, calm)] =
     (fst (ProcessSamples parseOne freshService [(john, calm), (noEmail, calm)]),
      Inr \<lparr>SuccessCount = 1, ErrorCount = 1\<rparr>)"
  using ProcessSamples_accounting[where samples="[(john, calm), (noEmail, calm)]" and parse=parseOne and s=freshService]
  by (simp add: ProcessSamples_def ProcessSample_def parseOne_def john_def noEmail_def calm_def
        freshService_def NewSampleService_def NewRateLimiter_def NewValidator_def
        ValidateSample_cases john_ok noEmail_bad
        IsZero_def Second_def IsAllowed_def GetErrorCount_def writeErrorLog_def)

text \<open>
  Claim C3, on the code. For a valid sample with \<^verbatim>\<open>UpdatedAt\<close> unset the body of
  \<^verbatim>\<open>ValidateSample\<close> sets \<^verbatim>\<open>UpdatedAt\<close> of its parameter to the clock reading,
  but the parameter is a copy: the call returns the validator and no error, and the
  sample the caller goes on with, here the one \<^verbatim>\<open>ProcessSample\<close> hands to the
  database, still has \<^verbatim>\<open>UpdatedAt\<close> unset.
\<close>

theorem ValidateSample_default_lost:
  "ValidateSampleBody (NewValidator []) calm johnSample
     = (NewValidator [], johnSample\<lparr>UpdatedAt := clockValidate calm\<rparr>, None)
   \<and> ValidateSample (NewValidator []) calm johnSample = (NewValidator [], None)
   \<and> db (fst (ProcessSample parseOne freshService calm john)) = [johnSample]
   \<and> UpdatedAt johnSample = 0 \<and> clockValidate calm \<noteq> 0"
  by (simp add: ValidateSample_def ValidateSampleBody_def johnSample_def john_ok IsZero_def Second_def
        ProcessSample_def parseOne_def john_def freshService_def NewSampleService_def
        NewRateLimiter_def IsAllowed_def calm_def)

section \<open>Properties of the decoder and of the batch\<close>









lemma EqualFold_refl [simp]: "EqualFold name name"
  by (simp add: EqualFold_def)














end
